theory Spec2Isabelle
  imports Main "HOL-Library.Sublist" "HOL-Library.Word"
begin

unbundle bit_operations_syntax

section \<open>Events and the pubsub query matcher (package query)\<close>

text \<open>
  The ABCI event types: an event has a type and a list of attributes; an attribute
  has a key, a value and the flag that asks for it to be indexed.
\<close>

record EventAttribute =
  Key :: string
  Value :: string
  Index :: bool

record Event =
  Type :: string
  Attributes :: "EventAttribute list"

text \<open>
  A compiled condition: the tag it looks for and the matcher applied to the attribute
  value. A compiled query holds its conditions; a \<open>*Query\<close> may be nil, which is
  \<open>None\<close> here.
\<close>

record condition =
  tag :: string
  match :: "string \<Rightarrow> bool"

record Query =
  conds :: "condition list"

text \<open>\<open>strings.Split(s, sep)\<close> for a one-byte separator, and \<open>strings.Join\<close>.\<close>

fun Split :: "string \<Rightarrow> char \<Rightarrow> string list" where
  "Split [] c = [[]]"
| "Split (x # xs) c =
     (if x = c then [] # Split xs c
      else (case Split xs c of [] \<Rightarrow> [[x]] | t # ts \<Rightarrow> (x # t) # ts))"

fun Join :: "string list \<Rightarrow> string \<Rightarrow> string" where
  "Join [] sep = []"
| "Join [t] sep = t"
| "Join (t # ts) sep = t @ sep @ Join ts sep"

text \<open>
  \<open>ExpandEvents\<close>: the flattened events are a Go map from composite key to values; the
  association list is the map in the order the \<open>range\<close> loop visits it. Each entry
  becomes one event whose type is the composite key up to its last dot and whose
  attributes all carry the part after the last dot as key.
\<close>

definition expandEntry :: "string \<times> string list \<Rightarrow> Event" where
  "expandEntry kv =
     (let tokens = Split (fst kv) (CHR ''.'');
          attrs = map (\<lambda>v. \<lparr>Key = last tokens, Value = v, Index = False\<rparr>) (snd kv)
      in \<lparr>Type = Join (butlast tokens) ''.'', Attributes = attrs\<rparr>)"

definition ExpandEvents :: "(string \<times> string list) list \<Rightarrow> Event list" where
  "ExpandEvents flattenedEvents = map expandEntry flattenedEvents"

text \<open>
  \<open>findAttr\<close>: the values of the attributes of the event whose full name is the
  condition's tag, and whether the event type is the whole tag.
\<close>

definition findAttr :: "condition \<Rightarrow> Event \<Rightarrow> string list \<times> bool" where
  "findAttr c event =
     (if \<not> prefix (Type event) (tag c) then ([], False)
      else if length (tag c) = length (Type event) then ([], True)
      else (map Value (filter (\<lambda>attr. Type event @ ''.'' @ Key attr = tag c)
                         (Attributes event)), False))"

definition matchesEvent :: "condition \<Rightarrow> Event \<Rightarrow> bool" where
  "matchesEvent c event =
     (case findAttr c event of (vs, tagEqualsType) \<Rightarrow>
        if length vs = 0 then (if tagEqualsType then match c '''' else False)
        else list_ex (match c) vs)"

definition matchesAny :: "condition \<Rightarrow> Event list \<Rightarrow> bool" where
  "matchesAny c events = list_ex (matchesEvent c) events"

text \<open>
  \<open>matchesEvents\<close>: the loop returns false at the first condition that matches no
  event; after the loop the result is whether there was any event at all.
\<close>

fun matchesEvents_loop :: "condition list \<Rightarrow> Event list \<Rightarrow> bool" where
  "matchesEvents_loop [] events = (length events \<noteq> 0)"
| "matchesEvents_loop (cond # rest) events =
     (if \<not> matchesAny cond events then False else matchesEvents_loop rest events)"

definition matchesEvents :: "Query \<Rightarrow> Event list \<Rightarrow> bool" where
  "matchesEvents q events = matchesEvents_loop (conds q) events"

text \<open>
  \<open>Matches\<close> returns a verdict and an error that is always nil (\<open>None\<close>). A nil
  query matches everything.
\<close>

text \<open>
  Errors as values. \<open>ErrReserved\<close> is the error \<open>indexEvents\<close> builds for
  the reserved composite key; \<open>ErrExt\<close> is an error handed up from a helper or from
  the database, with its message; \<open>ErrWrap\<close> is \<open>fmt.Errorf("...: %w", err)\<close>;
  \<open>ErrMsg\<close> is \<open>errors.New\<close>.
\<close>

datatype error =
    ErrReserved string
  | ErrExt string
  | ErrMsg string
  | ErrWrap string error

definition Matches :: "Query option \<Rightarrow> (string \<times> string list) list \<Rightarrow> bool \<times> error option" where
  "Matches q events =
     (case q of None \<Rightarrow> (True, None)
      | Some q' \<Rightarrow> (matchesEvents q' (ExpandEvents events), None))"

section \<open>The block indexer (package kv): Has and Index\<close>

type_synonym int64 = "64 word"
type_synonym bytes = "8 word list"

record EventDataNewBlockEvents =
  Height :: int64
  Events :: "Event list"
  NumTxs :: int64

text \<open>The reserved composite key \<open>types.BlockHeightKey\<close>.\<close>

definition BlockHeightKey :: string where
  "BlockHeightKey = ''block.height''"

text \<open>
  The key encoders of the package (\<open>heightKey\<close>, \<open>eventKey\<close>, \<open>int64ToBytes\<close>) and
  the database behind \<open>dbm.DB\<close> are not part of the indexer's file; they are
  parameters. An encoder returns a key or the message of its error. The database may
  refuse a \<open>Set\<close> on a batch, fail a \<open>WriteSync\<close> or fail a \<open>Has\<close>; each is a
  function that returns the message of the error or \<open>None\<close>.
\<close>

record Deps =
  heightKey :: "int64 \<Rightarrow> string + bytes"
  eventKey :: "string \<Rightarrow> string \<Rightarrow> int64 \<Rightarrow> int64 \<Rightarrow> string + bytes"
  int64ToBytes :: "int64 \<Rightarrow> bytes"
  dbSetErr :: "bytes \<Rightarrow> bytes \<Rightarrow> string option"
  dbWriteErr :: "(bytes \<times> bytes) list \<Rightarrow> string option"
  dbHasErr :: "bytes \<Rightarrow> string option"

text \<open>
  The store maps keys to values. A batch is the list of its pending writes, in the
  order of the \<open>Set\<close> calls. \<open>WriteSync\<close> is atomic, as a database batch is: it
  applies every write, or fails and applies none.
\<close>

type_synonym kvstore = "bytes \<rightharpoonup> bytes"
type_synonym batch = "(bytes \<times> bytes) list"

record BlockerIndexer =
  store :: kvstore
  eventSeq :: int64

definition batch_Set :: "Deps \<Rightarrow> batch \<Rightarrow> bytes \<Rightarrow> bytes \<Rightarrow> error + batch" where
  "batch_Set d b k v =
     (case dbSetErr d k v of Some m \<Rightarrow> Inl (ErrExt m) | None \<Rightarrow> Inr (b @ [(k, v)]))"

definition applyBatch :: "batch \<Rightarrow> kvstore \<Rightarrow> kvstore" where
  "applyBatch b st = fold (\<lambda>kv s. s(fst kv \<mapsto> snd kv)) b st"

definition batch_WriteSync :: "Deps \<Rightarrow> batch \<Rightarrow> kvstore \<Rightarrow> error + kvstore" where
  "batch_WriteSync d b st =
     (case dbWriteErr d b of Some m \<Rightarrow> Inl (ErrExt m) | None \<Rightarrow> Inr (applyBatch b st))"

text \<open>\<open>Has\<close>: whether the height has been indexed, or the error of the lookup.\<close>

definition Has :: "Deps \<Rightarrow> BlockerIndexer \<Rightarrow> int64 \<Rightarrow> bool \<times> error option" where
  "Has d idx height =
     (case heightKey d height of
        Inl m \<Rightarrow> (False, Some (ErrWrap ''failed to create block height index key'' (ErrExt m)))
      | Inr key \<Rightarrow>
          (case dbHasErr d key of
             Some m \<Rightarrow> (False, Some (ErrExt m))
           | None \<Rightarrow> (store idx key \<noteq> None, None)))"

text \<open>
  The inner loop of \<open>indexEvents\<close> over the attributes of one event. An attribute
  with an empty key is skipped; the reserved composite key is an error, whether or not
  the attribute asks to be indexed; an attribute with \<open>index: true\<close> adds its key to
  the batch.
\<close>

fun indexAttrs ::
  "Deps \<Rightarrow> string \<Rightarrow> int64 \<Rightarrow> int64 \<Rightarrow> EventAttribute list \<Rightarrow> batch \<Rightarrow> error + batch" where
  "indexAttrs d ty height seq [] b = Inr b"
| "indexAttrs d ty height seq (attr # rest) b =
     (if length (Key attr) = 0 then indexAttrs d ty height seq rest b
      else
        let compositeKey = ty @ ''.'' @ Key attr in
        if compositeKey = BlockHeightKey then Inl (ErrReserved compositeKey)
        else if Index attr then
          (case eventKey d compositeKey (Value attr) height seq of
             Inl m \<Rightarrow> Inl (ErrWrap ''failed to create block index key'' (ErrExt m))
           | Inr key \<Rightarrow>
               (case batch_Set d b key (int64ToBytes d height) of
                  Inl e \<Rightarrow> Inl e
                | Inr b' \<Rightarrow> indexAttrs d ty height seq rest b'))
        else indexAttrs d ty height seq rest b)"

text \<open>
  \<open>indexEvents\<close>: the event sequence number is incremented for every event, before
  the event is looked at, and stays incremented when the loop ends in an error. An
  event with an empty type is skipped.
\<close>

fun indexEvents ::
  "Deps \<Rightarrow> BlockerIndexer \<Rightarrow> batch \<Rightarrow> Event list \<Rightarrow> int64 \<Rightarrow> (error + batch) \<times> BlockerIndexer" where
  "indexEvents d idx b [] height = (Inr b, idx)"
| "indexEvents d idx b (event # rest) height =
     (let idx1 = idx\<lparr>eventSeq := eventSeq idx + 1\<rparr> in
      if length (Type event) = 0 then indexEvents d idx1 b rest height
      else
        (case indexAttrs d (Type event) height (eventSeq idx1) (Attributes event) b of
           Inl e \<Rightarrow> (Inl e, idx1)
         | Inr b' \<Rightarrow> indexEvents d idx1 b' rest height))"

text \<open>
  \<open>Index\<close>: a new batch; the primary height key; the events; then the one
  \<open>WriteSync\<close>. The result is the error (or nil) and the indexer afterwards.
\<close>

definition Index ::
  "Deps \<Rightarrow> BlockerIndexer \<Rightarrow> EventDataNewBlockEvents \<Rightarrow> error option \<times> BlockerIndexer" where
  "Index d idx bh =
     (let height = Height bh in
      case heightKey d height of
        Inl m \<Rightarrow> (Some (ErrWrap ''failed to create block height index key'' (ErrExt m)), idx)
      | Inr key \<Rightarrow>
          (case batch_Set d [] key (int64ToBytes d height) of
             Inl e \<Rightarrow> (Some e, idx)
           | Inr b \<Rightarrow>
               (case indexEvents d idx b (Events bh) height of
                  (Inl e, idx') \<Rightarrow>
                    (Some (ErrWrap ''failed to index FinalizeBlock events'' e), idx')
                | (Inr b', idx') \<Rightarrow>
                    (case batch_WriteSync d b' (store idx') of
                       Inl e \<Rightarrow> (Some e, idx')
                     | Inr st \<Rightarrow> (None, idx'\<lparr>store := st\<rparr>)))))"

text \<open>
  Whether some attribute of the bundle forms the reserved composite key, and whether
  an error is, or wraps, the reserved-key error.
\<close>

definition formsReserved :: "Event \<Rightarrow> bool" where
  "formsReserved event =
     list_ex (\<lambda>attr. Type event @ ''.'' @ Key attr = BlockHeightKey) (Attributes event)"

fun isReservedErr :: "error \<Rightarrow> bool" where
  "isReservedErr (ErrReserved k) = True"
| "isReservedErr (ErrWrap m e) = isReservedErr e"
| "isReservedErr (ErrExt m) = False"
| "isReservedErr (ErrMsg m) = False"

text \<open>A database and encoders that never fail, with keys that tell heights apart.\<close>

definition encInt64 :: "int64 \<Rightarrow> bytes" where
  "encInt64 h = map (\<lambda>i. ucast (drop_bit (8 * (7 - i)) h)) [0..<8]"

definition encString :: "string \<Rightarrow> bytes" where
  "encString s = map (\<lambda>c. of_nat (of_char c)) s @ [0, 1]"

definition goodDeps :: Deps where
  "goodDeps =
     \<lparr>heightKey = (\<lambda>h. Inr (encString BlockHeightKey @ encInt64 h)),
      eventKey = (\<lambda>k v h seq. Inr (encString k @ encString v @ encInt64 h @ encInt64 seq)),
      int64ToBytes = encInt64,
      dbSetErr = (\<lambda>k v. None),
      dbWriteErr = (\<lambda>b. None),
      dbHasErr = (\<lambda>k. None)\<rparr>"

text \<open>Two bundles for height 1 and an indexer with an empty store.\<close>

definition reservedBundle :: EventDataNewBlockEvents where
  "reservedBundle =
     \<lparr>Height = 1,
      Events = [\<lparr>Type = ''block'',
                 Attributes = [\<lparr>Key = ''height'', Value = ''5'', Index = False\<rparr>]\<rparr>],
      NumTxs = 0\<rparr>"

definition proposerBundle :: EventDataNewBlockEvents where
  "proposerBundle =
     \<lparr>Height = 1,
      Events = [\<lparr>Type = ''begin_event'',
                 Attributes = [\<lparr>Key = ''proposer'', Value = ''FCAA001'', Index = True\<rparr>]\<rparr>],
      NumTxs = 2\<rparr>"

definition emptyIndexer :: BlockerIndexer where
  "emptyIndexer = \<lparr>store = Map.empty, eventSeq = 0\<rparr>"

section \<open>The validator set and proposer selection\<close>

text \<open>
  Modelled from the spec: the validator set (\<open>types.ValidatorSet\<close>: \<open>GetProposer\<close>,
  \<open>IncrementProposerPriority\<close>, \<open>UpdateWithChangeSet\<close>, \<open>TotalVotingPower\<close>) is
  not among the sources; only its tests are (\<open>state_test.go\<close>). The definitions
  follow the spec's data model and its priority algorithm, step by step, and agree
  with the numbers the tests assert. Two points are fixed by the tests: the average
  of the centering step is the floor of the quotient (the tests compute it with
  \<open>big.Int.Div\<close> and expect priorities 62 and -61 from the sum -123), and the
  proposer of a set is the one the last increment picked (the tests read
  \<open>Proposer\<close> after an increment and find the validator that was picked, not the one
  whose priority is largest afterwards). Priorities and powers are signed 64-bit
  integers in the spec, which bounds the total power by \<open>MaxTotalVotingPower\<close> so
  that the arithmetic does not overflow; the model computes in the integers.
\<close>

record Validator =
  Address :: bytes
  PubKey :: "string \<times> bytes"
  VotingPower :: int
  ProposerPriority :: int

record ValidatorSet =
  Validators :: "Validator list"
  Proposer :: "Validator option"

definition MaxTotalVotingPower :: int where
  "MaxTotalVotingPower = 2 ^ 60 - 1"

definition TotalVotingPower :: "ValidatorSet \<Rightarrow> int" where
  "TotalVotingPower vals = sum_list (map VotingPower (Validators vals))"

text \<open>Addresses are compared as raw bytes, lexicographically.\<close>

fun bytesLess :: "bytes \<Rightarrow> bytes \<Rightarrow> bool" where
  "bytesLess [] [] = False"
| "bytesLess [] (y # ys) = True"
| "bytesLess (x # xs) [] = False"
| "bytesLess (x # xs) (y # ys) = (x < y \<or> (x = y \<and> bytesLess xs ys))"

text \<open>Division that rounds toward zero, as the division of signed machine integers.\<close>

definition tdiv :: "int \<Rightarrow> int \<Rightarrow> int" where
  "tdiv a b = sgn a * sgn b * (\<bar>a\<bar> div \<bar>b\<bar>)"

text \<open>Step 1, center: subtract the average priority from every priority.\<close>

definition avgProposerPriority :: "Validator list \<Rightarrow> int" where
  "avgProposerPriority vs = sum_list (map ProposerPriority vs) div int (length vs)"

definition shiftByAvgProposerPriority :: "Validator list \<Rightarrow> Validator list" where
  "shiftByAvgProposerPriority vs =
     (let avg = avgProposerPriority vs
      in map (\<lambda>v. v\<lparr>ProposerPriority := ProposerPriority v - avg\<rparr>) vs)"

text \<open>
  Step 2, rescale: when the largest and the smallest priority are more than
  \<open>diffMax\<close> apart, every priority is divided by the ceiling of \<open>diff / diffMax\<close>.
\<close>

definition computeMaxMinPriorityDiff :: "Validator list \<Rightarrow> int" where
  "computeMaxMinPriorityDiff vs =
     (case map ProposerPriority vs of
        [] \<Rightarrow> 0
      | p # ps \<Rightarrow> fold max ps p - fold min ps p)"

definition RescalePriorities :: "int \<Rightarrow> Validator list \<Rightarrow> Validator list" where
  "RescalePriorities diffMax vs =
     (let diff = computeMaxMinPriorityDiff vs in
      if diffMax > 0 \<and> diff > diffMax then
        (let ratio = (diff + diffMax - 1) div diffMax
         in map (\<lambda>v. v\<lparr>ProposerPriority := tdiv (ProposerPriority v) ratio\<rparr>) vs)
      else vs)"

text \<open>
  Step 4, pick: the validator with the largest priority; among equal priorities the
  one with the smaller address.
\<close>

definition CompareProposerPriority :: "Validator \<Rightarrow> Validator \<Rightarrow> Validator" where
  "CompareProposerPriority v other =
     (if ProposerPriority v > ProposerPriority other then v
      else if ProposerPriority v < ProposerPriority other then other
      else if bytesLess (Address other) (Address v) then other
      else v)"

definition getValWithMostPriority :: "Validator list \<Rightarrow> Validator option" where
  "getValWithMostPriority vs =
     (case vs of [] \<Rightarrow> None | v # rest \<Rightarrow> Some (fold (\<lambda>w res. CompareProposerPriority res w) rest v))"

text \<open>
  One increment: center, rescale to the window \<open>2 * totalVotingPower\<close>, add every
  validator's power to its priority, pick, and subtract the total power from the one
  picked, who becomes the proposer of the set. An empty set is left as it is.
\<close>

definition PriorityWindowSizeFactor :: int where
  "PriorityWindowSizeFactor = 2"

definition incrementProposerPriority :: "ValidatorSet \<Rightarrow> ValidatorSet" where
  "incrementProposerPriority vals =
     (let total = TotalVotingPower vals;
          centered = shiftByAvgProposerPriority (Validators vals);
          scaled = RescalePriorities (PriorityWindowSizeFactor * total) centered;
          added = map (\<lambda>v. v\<lparr>ProposerPriority := ProposerPriority v + VotingPower v\<rparr>) scaled
      in case getValWithMostPriority added of
           None \<Rightarrow> vals
         | Some mostest \<Rightarrow>
             (let chosen = mostest\<lparr>ProposerPriority := ProposerPriority mostest - total\<rparr>
              in \<lparr>Validators = map (\<lambda>v. if Address v = Address mostest then chosen else v) added,
                  Proposer = Some chosen\<rparr>))"

fun IncrementProposerPriority :: "nat \<Rightarrow> ValidatorSet \<Rightarrow> ValidatorSet" where
  "IncrementProposerPriority 0 vals = vals"
| "IncrementProposerPriority (Suc n) vals =
     IncrementProposerPriority n (incrementProposerPriority vals)"

definition CopyIncrementProposerPriority :: "nat \<Rightarrow> ValidatorSet \<Rightarrow> ValidatorSet" where
  "CopyIncrementProposerPriority n vals = IncrementProposerPriority n vals"

text \<open>
  \<open>GetProposer\<close>: the proposer the set holds; a set that holds none yet picks the
  validator with the largest priority. An empty set has no proposer.
\<close>

definition GetProposer :: "ValidatorSet \<Rightarrow> Validator option" where
  "GetProposer vals =
     (if Validators vals = [] then None
      else case Proposer vals of
             Some p \<Rightarrow> Some p
           | None \<Rightarrow> getValWithMostPriority (Validators vals))"

text \<open>
  Modelled from the spec: \<open>UpdateWithChangeSet\<close> (not among the sources). A change
  with power 0 removes the validator of that address; a change with a positive power
  replaces the validator of that address or adds it, in address order. A validator
  that was in the set keeps its priority; one that was not starts at
  \<open>-(T + T / 8)\<close>, where \<open>T\<close> is the total power after the update. The set is
  then centered and rescaled (steps 1 and 2). The update fails on a negative power, on
  a total above \<open>MaxTotalVotingPower\<close> and on an empty result.
  \<open>changeSetApplied\<close> is the set after the changes, with the initial priorities and
  before centering.
\<close>

datatype state_error =
    ErrInvalidValidatorUpdate
  | ErrEmptyValidatorSet
  | ErrConsensusParams
  | ErrNegativeVotingPower
  | ErrTotalVotingPowerOverflow
  | ErrMarshal string

definition removeValidator :: "bytes \<Rightarrow> Validator list \<Rightarrow> Validator list" where
  "removeValidator a vs = filter (\<lambda>v. Address v \<noteq> a) vs"

fun upsertValidator :: "Validator \<Rightarrow> Validator list \<Rightarrow> Validator list" where
  "upsertValidator c [] = [c]"
| "upsertValidator c (v # vs) =
     (if Address v = Address c then c # vs
      else if bytesLess (Address c) (Address v) then c # v # vs
      else v # upsertValidator c vs)"

definition applyChanges :: "Validator list \<Rightarrow> Validator list \<Rightarrow> Validator list" where
  "applyChanges changes vs =
     fold (\<lambda>c acc. if VotingPower c = 0 then removeValidator (Address c) acc
                    else upsertValidator c acc) changes vs"

definition computeNewPriorities :: "Validator list \<Rightarrow> int \<Rightarrow> Validator list \<Rightarrow> Validator list" where
  "computeNewPriorities old updatedTotalVotingPower vs =
     map (\<lambda>v. case find (\<lambda>w. Address w = Address v) old of
                 Some w \<Rightarrow> v\<lparr>ProposerPriority := ProposerPriority w\<rparr>
               | None \<Rightarrow> v\<lparr>ProposerPriority :=
                     - (updatedTotalVotingPower + updatedTotalVotingPower div 8)\<rparr>) vs"

definition changeSetApplied :: "Validator list \<Rightarrow> ValidatorSet \<Rightarrow> Validator list" where
  "changeSetApplied changes vals =
     (let updated = applyChanges changes (Validators vals)
      in computeNewPriorities (Validators vals) (sum_list (map VotingPower updated)) updated)"

definition UpdateWithChangeSet :: "Validator list \<Rightarrow> ValidatorSet \<Rightarrow> state_error + ValidatorSet" where
  "UpdateWithChangeSet changes vals =
     (if list_ex (\<lambda>c. VotingPower c < 0) changes then Inl ErrNegativeVotingPower
      else
        let added = changeSetApplied changes vals;
            total = sum_list (map VotingPower added)
        in if total > MaxTotalVotingPower then Inl ErrTotalVotingPowerOverflow
           else if added = [] then Inl ErrEmptyValidatorSet
           else Inr (vals\<lparr>Validators :=
                  RescalePriorities (PriorityWindowSizeFactor * total)
                    (shiftByAvgProposerPriority added)\<rparr>))"


section \<open>Tx results and their Merkle hash\<close>

text \<open>
  \<open>NewResults\<close>, \<open>Hash\<close> and \<open>toByteSlices\<close> are the source's
  (\<open>types/results.go\<close>). The entries of the result list are pointers in the source;
  the model takes the results they point to. The generated \<open>Marshal\<close> of a result is
  a parameter that returns the bytes or the message of its error, which
  \<open>toByteSlices\<close> turns into a panic (\<open>ErrMarshal\<close> here).

  Modelled from the spec: \<open>abci.DeterministicExecTxResult\<close> (package abci/types is
  not among the sources) keeps the fields \<open>Code\<close>, \<open>Data\<close>, \<open>GasWanted\<close> and
  \<open>GasUsed\<close> and strips the others.

  Modelled from the spec: \<open>merkle.HashFromByteSlices\<close> (package crypto/merkle is not
  among the sources) is the Merkle hash of the list of leaves: the binary tree that
  splits a list at the largest power of two below its length, over a hash function
  \<open>H\<close> that is a parameter, with distinct prefixes for leaves and inner nodes. The
  empty list hashes to the sentinel \<open>emptyHash\<close>, the hash of no input.
\<close>

record ExecTxResult =
  Code :: "32 word"
  Data :: bytes
  Log :: string
  Info :: string
  GasWanted :: int64
  GasUsed :: int64
  ResultEvents :: "Event list"
  Codespace :: string

definition DeterministicExecTxResult :: "ExecTxResult \<Rightarrow> ExecTxResult" where
  "DeterministicExecTxResult response =
     \<lparr>Code = Code response, Data = Data response, Log = [], Info = [],
      GasWanted = GasWanted response, GasUsed = GasUsed response,
      ResultEvents = [], Codespace = []\<rparr>"

type_synonym ABCIResults = "ExecTxResult list"

definition NewResults :: "ExecTxResult list \<Rightarrow> ABCIResults" where
  "NewResults responses = map DeterministicExecTxResult responses"

fun toByteSlices :: "(ExecTxResult \<Rightarrow> string + bytes) \<Rightarrow> ABCIResults \<Rightarrow> state_error + bytes list" where
  "toByteSlices marshal [] = Inr []"
| "toByteSlices marshal (r # rest) =
     (case marshal r of
        Inl m \<Rightarrow> Inl (ErrMarshal m)
      | Inr bz \<Rightarrow>
          (case toByteSlices marshal rest of
             Inl e \<Rightarrow> Inl e
           | Inr bzs \<Rightarrow> Inr (bz # bzs)))"

fun bitLen :: "nat \<Rightarrow> nat" where
  "bitLen n = (if n = 0 then 0 else Suc (bitLen (n div 2)))"

declare bitLen.simps [simp del]

definition getSplitPoint :: "nat \<Rightarrow> nat" where
  "getSplitPoint n =
     (let k = 2 ^ (bitLen n - 1) in if k = n then k div 2 else k)"

definition emptyHash :: "(bytes \<Rightarrow> bytes) \<Rightarrow> bytes" where
  "emptyHash H = H []"

definition leafHash :: "(bytes \<Rightarrow> bytes) \<Rightarrow> bytes \<Rightarrow> bytes" where
  "leafHash H leaf = H (0 # leaf)"

definition innerHash :: "(bytes \<Rightarrow> bytes) \<Rightarrow> bytes \<Rightarrow> bytes \<Rightarrow> bytes" where
  "innerHash H left right = H (1 # left @ right)"

text \<open>The split point lies strictly inside a list of two or more leaves, so the recursion ends.\<close>

lemma bitLen_bounds: "0 < n \<Longrightarrow> 2 ^ (bitLen n - 1) \<le> n \<and> n < 2 ^ bitLen n"
proof (induction n rule: bitLen.induct)
  case (1 n)
  have b: "bitLen n = Suc (bitLen (n div 2))"
    using "1.prems" by (subst bitLen.simps) simp
  show ?case
  proof (cases "n div 2 = 0")
    case True
    with "1.prems" have n1: "n = 1" by (simp add: div_eq_0_iff)
    have "bitLen (n div 2) = 0" using True by (subst bitLen.simps) simp
    with b n1 show ?thesis by simp
  next
    case False
    then have "0 < n div 2" by simp
    with "1.IH" "1.prems" have ih1: "2 ^ (bitLen (n div 2) - 1) \<le> n div 2"
      and ih2: "n div 2 < 2 ^ bitLen (n div 2)"
      by simp_all
    have "bitLen (n div 2) = Suc (bitLen (n div 2 div 2))"
      using False by (subst bitLen.simps) simp
    then obtain m where m: "bitLen (n div 2) = Suc m" by blast
    have e1: "(2::nat) ^ (bitLen n - 1) = 2 * 2 ^ (bitLen (n div 2) - 1)"
      by (simp only: b m diff_Suc_1 power_Suc)
    have e2: "(2::nat) ^ bitLen n = 2 * 2 ^ bitLen (n div 2)"
      by (simp only: b power_Suc)
    have l: "2 * (n div 2) \<le> n" by simp
    have u: "n < 2 * (n div 2) + 2" by linarith
    from ih1 l have "2 * 2 ^ (bitLen (n div 2) - 1) \<le> n" by linarith
    moreover from ih2 u have "n < 2 * 2 ^ bitLen (n div 2)" by linarith
    ultimately show ?thesis by (simp only: e1 e2)
  qed
qed

lemma getSplitPoint_bounds: "2 \<le> n \<Longrightarrow> 0 < getSplitPoint n \<and> getSplitPoint n < n"
proof -
  assume n: "2 \<le> n"
  then have pos: "0 < n" by simp
  from bitLen_bounds [OF pos] have b: "2 ^ (bitLen n - 1) \<le> n" and u: "n < 2 ^ bitLen n"
    by simp_all
  have "2 \<le> bitLen n"
  proof (rule ccontr)
    assume "\<not> 2 \<le> bitLen n"
    then have "bitLen n \<le> 1" by simp
    then have "(2::nat) ^ bitLen n \<le> 2 ^ 1" by (rule power_increasing) simp
    with u n show False by simp
  qed
  then obtain m where m: "bitLen n - 1 = Suc m" by (cases "bitLen n - 1") auto
  show ?thesis
  proof (cases "(2::nat) ^ (bitLen n - 1) = n")
    case True
    then have "getSplitPoint n = n div 2" by (simp add: getSplitPoint_def Let_def)
    with n show ?thesis by simp
  next
    case False
    then have "getSplitPoint n = 2 ^ (bitLen n - 1)" by (simp add: getSplitPoint_def Let_def)
    with b False show ?thesis by simp
  qed
qed
function hashFromByteSlices :: "(bytes \<Rightarrow> bytes) \<Rightarrow> bytes list \<Rightarrow> bytes" where
  "hashFromByteSlices H items =
     (case items of
        [] \<Rightarrow> emptyHash H
      | [x] \<Rightarrow> leafHash H x
      | _ \<Rightarrow>
          (let k = getSplitPoint (length items)
           in innerHash H (hashFromByteSlices H (take k items))
                (hashFromByteSlices H (drop k items))))"
  by pat_completeness auto
termination
proof (relation "measure (\<lambda>(H, items). length items)")
  show "wf (measure (\<lambda>(H, items). length items))" by simp
next
  fix H :: "bytes \<Rightarrow> bytes" and items :: "bytes list" and x21 x22 x21a x22a k
  assume "items = x21 # x22" "x22 = x21a # x22a" "k = getSplitPoint (length items)"
  then show "((H, take k items), H, items) \<in> measure (\<lambda>(H, items). length items)"
    using getSplitPoint_bounds [of "length items"] by simp
next
  fix H :: "bytes \<Rightarrow> bytes" and items :: "bytes list" and x21 x22 x21a x22a k
  assume "items = x21 # x22" "x22 = x21a # x22a" "k = getSplitPoint (length items)"
  then show "((H, drop k items), H, items) \<in> measure (\<lambda>(H, items). length items)"
    using getSplitPoint_bounds [of "length items"] by simp
qed

text \<open>The fields of a tx result that the deterministic projection keeps.\<close>

definition detFields :: "ExecTxResult \<Rightarrow> 32 word \<times> bytes \<times> int64 \<times> int64" where
  "detFields r = (Code r, Data r, GasWanted r, GasUsed r)"

definition Hash ::
  "(ExecTxResult \<Rightarrow> string + bytes) \<Rightarrow> (bytes \<Rightarrow> bytes) \<Rightarrow> ABCIResults \<Rightarrow> state_error + bytes" where
  "Hash marshal H a =
     (case toByteSlices marshal a of
        Inl e \<Rightarrow> Inl e
      | Inr bzs \<Rightarrow> Inr (hashFromByteSlices H bzs))"

text \<open>
  Modelled from the spec: \<open>TxResultsHash\<close> (in \<open>state/execution.go\<close>, not among the
  sources; the tests call it) is the hash of the deterministic results.
\<close>

definition TxResultsHash ::
  "(ExecTxResult \<Rightarrow> string + bytes) \<Rightarrow> (bytes \<Rightarrow> bytes) \<Rightarrow> ExecTxResult list \<Rightarrow> state_error + bytes" where
  "TxResultsHash marshal H txResults = Hash marshal H (NewResults txResults)"

section \<open>The state transition\<close>

text \<open>
  Modelled from the spec: \<open>UpdateState\<close> and the \<open>State\<close> it works on
  (\<open>state/execution.go\<close> and \<open>state/state.go\<close> are not among the sources). The fields
  are the spec's; the validator sets of a state are \<open>StateValidators\<close>,
  \<open>NextValidators\<close> and \<open>LastValidators\<close>. The bounds of the consensus parameters
  are not in the spec: the check is the parameter \<open>validParams\<close>.
\<close>

record ConsensusParams =
  Block :: "int \<times> int"
  Evidence :: "int \<times> int \<times> int"
  ValidatorKeyTypes :: "string list"
  AppVersion :: int
  Feature :: "int \<times> int"

record ConsensusParamUpdates =
  BlockUpdate :: "(int \<times> int) option"
  EvidenceUpdate :: "(int \<times> int \<times> int) option"
  ValidatorUpdate :: "string list option"
  AppVersionUpdate :: "int option"
  FeatureUpdate :: "(int \<times> int) option"

definition UpdateParams :: "ConsensusParams \<Rightarrow> ConsensusParamUpdates \<Rightarrow> ConsensusParams" where
  "UpdateParams params u =
     \<lparr>Block = (case BlockUpdate u of None \<Rightarrow> Block params | Some b \<Rightarrow> b),
      Evidence = (case EvidenceUpdate u of None \<Rightarrow> Evidence params | Some e \<Rightarrow> e),
      ValidatorKeyTypes =
        (case ValidatorUpdate u of None \<Rightarrow> ValidatorKeyTypes params | Some v \<Rightarrow> v),
      AppVersion = (case AppVersionUpdate u of None \<Rightarrow> AppVersion params | Some a \<Rightarrow> a),
      Feature = (case FeatureUpdate u of None \<Rightarrow> Feature params | Some f \<Rightarrow> f)\<rparr>"

record Header =
  HeaderHeight :: int
  HeaderTime :: int
  HeaderBlockVersion :: int

record FinalizeBlockResponse =
  TxResults :: "ExecTxResult list"
  ParamUpdates :: "ConsensusParamUpdates option"
  ResponseAppHash :: bytes

record State =
  ChainID :: string
  InitialHeight :: int
  LastBlockHeight :: int
  LastBlockID :: bytes
  LastBlockTime :: int
  NextValidators :: ValidatorSet
  StateValidators :: ValidatorSet
  LastValidators :: ValidatorSet
  LastHeightValidatorsChanged :: int
  Params :: ConsensusParams
  LastHeightConsensusParamsChanged :: int
  LastResultsHash :: bytes
  AppHash :: bytes
  VersionBlock :: int
  VersionApp :: int

definition Copy :: "ValidatorSet \<Rightarrow> ValidatorSet" where
  "Copy vals = vals"

text \<open>
  A validator update is invalid when its address is zero, its key type is not one the
  consensus parameters accept, or its power is above \<open>MaxTotalVotingPower\<close>.
\<close>

definition validValidatorUpdate :: "ConsensusParams \<Rightarrow> Validator \<Rightarrow> bool" where
  "validValidatorUpdate params c =
     (\<not> list_all (\<lambda>b. b = 0) (Address c)
      \<and> fst (PubKey c) \<in> set (ValidatorKeyTypes params)
      \<and> VotingPower c \<le> MaxTotalVotingPower)"

text \<open>
  The updates of a block applied to a copy of the next validator set; an empty list
  of updates leaves the copy as it is.
\<close>

definition applyValidatorUpdates :: "Validator list \<Rightarrow> ValidatorSet \<Rightarrow> state_error + ValidatorSet" where
  "applyValidatorUpdates validatorUpdates vals =
     (if validatorUpdates = [] then Inr (Copy vals)
      else UpdateWithChangeSet validatorUpdates (Copy vals))"

definition powersOf :: "ValidatorSet \<Rightarrow> (bytes \<times> int) list" where
  "powersOf vals = map (\<lambda>v. (Address v, VotingPower v)) (Validators vals)"

text \<open>The state after the block, from the parts the transition has computed.\<close>

definition nextState ::
  "State \<Rightarrow> bytes \<Rightarrow> Header \<Rightarrow> FinalizeBlockResponse \<Rightarrow> ValidatorSet \<Rightarrow> int \<Rightarrow>
   ConsensusParams \<Rightarrow> int \<Rightarrow> bytes \<Rightarrow> State" where
  "nextState state blockID header responses nValSet lastHeightValsChanged nextParams
     lastHeightParamsChanged resultsHash =
     \<lparr>ChainID = ChainID state,
      InitialHeight = InitialHeight state,
      LastBlockHeight = HeaderHeight header,
      LastBlockID = blockID,
      LastBlockTime = HeaderTime header,
      NextValidators = nValSet,
      StateValidators = Copy (NextValidators state),
      LastValidators = Copy (StateValidators state),
      LastHeightValidatorsChanged = lastHeightValsChanged,
      Params = nextParams,
      LastHeightConsensusParamsChanged = lastHeightParamsChanged,
      LastResultsHash = resultsHash,
      AppHash = ResponseAppHash responses,
      VersionBlock = HeaderBlockVersion header,
      VersionApp = VersionApp state\<rparr>"

definition nextParamsOf :: "State \<Rightarrow> FinalizeBlockResponse \<Rightarrow> ConsensusParams" where
  "nextParamsOf state responses =
     (case ParamUpdates responses of
        None \<Rightarrow> Params state
      | Some u \<Rightarrow> UpdateParams (Params state) u)"

definition paramsRejected ::
  "(ConsensusParams \<Rightarrow> bool) \<Rightarrow> State \<Rightarrow> FinalizeBlockResponse \<Rightarrow> bool" where
  "paramsRejected validParams state responses =
     (ParamUpdates responses \<noteq> None \<and> \<not> validParams (nextParamsOf state responses))"

definition UpdateState ::
  "(ExecTxResult \<Rightarrow> string + bytes) \<Rightarrow> (bytes \<Rightarrow> bytes) \<Rightarrow> (ConsensusParams \<Rightarrow> bool) \<Rightarrow>
   State \<Rightarrow> bytes \<Rightarrow> Header \<Rightarrow> FinalizeBlockResponse \<Rightarrow> Validator list \<Rightarrow> state_error + State" where
  "UpdateState marshal H validParams state blockID header responses validatorUpdates =
     (if list_ex (\<lambda>c. \<not> validValidatorUpdate (Params state) c) validatorUpdates
      then Inl ErrInvalidValidatorUpdate
      else
        case applyValidatorUpdates validatorUpdates (NextValidators state) of
          Inl e \<Rightarrow> Inl e
        | Inr changed \<Rightarrow>
            if Validators changed = [] then Inl ErrEmptyValidatorSet
            else if paramsRejected validParams state responses then Inl ErrConsensusParams
            else
              case TxResultsHash marshal H (TxResults responses) of
                Inl e \<Rightarrow> Inl e
              | Inr resultsHash \<Rightarrow>
                  Inr (nextState state blockID header responses
                         (IncrementProposerPriority 1 changed)
                         (if powersOf changed \<noteq> powersOf (NextValidators state)
                          then HeaderHeight header + 2
                          else LastHeightValidatorsChanged state)
                         (nextParamsOf state responses)
                         (case ParamUpdates responses of
                            None \<Rightarrow> LastHeightConsensusParamsChanged state
                          | Some u \<Rightarrow> HeaderHeight header + 1)
                         resultsHash))"

section \<open>Fixtures\<close>

text \<open>
  Validators and a state as the tests build them: \<open>val1\<close> with power 10 alone in the
  set, \<open>val2\<close> the validator the tests add.
\<close>

definition mkValidator :: "nat \<Rightarrow> int \<Rightarrow> int \<Rightarrow> Validator" where
  "mkValidator a pw prio =
     \<lparr>Address = [of_nat a], PubKey = (''ed25519'', [of_nat a]), VotingPower = pw,
      ProposerPriority = prio\<rparr>"

definition singleValSet :: ValidatorSet where
  "singleValSet = \<lparr>Validators = [mkValidator 1 10 0], Proposer = Some (mkValidator 1 10 0)\<rparr>"

definition defaultParams :: ConsensusParams where
  "defaultParams =
     \<lparr>Block = (4194304, 10000000), Evidence = (100000, 172800, 1048576),
      ValidatorKeyTypes = [''ed25519''], AppVersion = 0, Feature = (0, 0)\<rparr>"

definition testState :: State where
  "testState =
     \<lparr>ChainID = ''test-chain'', InitialHeight = 1, LastBlockHeight = 0, LastBlockID = [],
      LastBlockTime = 0, NextValidators = singleValSet, StateValidators = singleValSet,
      LastValidators = \<lparr>Validators = [], Proposer = None\<rparr>,
      LastHeightValidatorsChanged = 1, Params = defaultParams,
      LastHeightConsensusParamsChanged = 1, LastResultsHash = [], AppHash = [],
      VersionBlock = 11, VersionApp = 0\<rparr>"

definition testHeader :: Header where
  "testHeader = \<lparr>HeaderHeight = 1, HeaderTime = 1, HeaderBlockVersion = 11\<rparr>"

text \<open>
  A marshaller that writes every field it is given, so that a field that is not
  stripped shows in the bytes, and a stand-in for the hash function.
\<close>

definition testMarshal :: "ExecTxResult \<Rightarrow> string + bytes" where
  "testMarshal r =
     Inr (ucast (Code r) # Data r @ map (\<lambda>c. of_nat (of_char c)) (Log r @ Info r @ Codespace r)
          @ [ucast (GasWanted r), ucast (GasUsed r), of_nat (length (ResultEvents r))])"

definition testH :: "bytes \<Rightarrow> bytes" where
  "testH bz = of_nat (length bz) # bz"

definition emptyResponse :: FinalizeBlockResponse where
  "emptyResponse = \<lparr>TxResults = [], ParamUpdates = None, ResponseAppHash = []\<rparr>"

definition txResult :: "nat \<Rightarrow> string \<Rightarrow> string \<Rightarrow> ExecTxResult" where
  "txResult code dat lg =
     \<lparr>Code = of_nat code, Data = map (\<lambda>c. of_nat (of_char c)) dat, Log = lg, Info = [],
      GasWanted = 0, GasUsed = 0, ResultEvents = [], Codespace = []\<rparr>"

definition helloResponse :: FinalizeBlockResponse where
  "helloResponse =
     \<lparr>TxResults = [txResult 32 ''Hello'' ''Huh?''], ParamUpdates = None, ResponseAppHash = [1]\<rparr>"

definition helloHash :: bytes where
  "helloHash = [10, 0, 32, 72, 101, 108, 108, 111, 0, 0, 0]"

definition val1After :: ValidatorSet where
  "val1After = \<lparr>Validators = [mkValidator 1 10 0], Proposer = Some (mkValidator 1 10 0)\<rparr>"

definition val2Added :: ValidatorSet where
  "val2Added =
     \<lparr>Validators = [mkValidator 1 10 11, mkValidator 2 10 (- 11)],
      Proposer = Some (mkValidator 1 10 0)\<rparr>"

definition twoValSet :: ValidatorSet where
  "twoValSet =
     \<lparr>Validators = [mkValidator 1 10 1, mkValidator 2 10 (- 1)],
      Proposer = Some (mkValidator 1 10 1)\<rparr>"

text \<open>
  A set of two validators with powers 100 and 1 before and after 51 increments, and
  the set after the heavy validator is removed and a third validator of power 1 is
  added in one change set.
\<close>

definition freshPair :: ValidatorSet where
  "freshPair = \<lparr>Validators = [mkValidator 1 100 0, mkValidator 2 1 0], Proposer = None\<rparr>"

definition unbondingSet :: ValidatorSet where
  "unbondingSet =
     \<lparr>Validators = [mkValidator 1 100 50, mkValidator 2 1 (- 50)],
      Proposer = Some (mkValidator 2 1 (- 50))\<rparr>"


section \<open>Runs of proposer selection\<close>

text \<open>
  The loop of \<open>testProposerFreq\<close>: each round reads \<open>GetProposer\<close> and then calls
  \<open>IncrementProposerPriority(1)\<close>; \<open>proposerRun n\<close> is the list of the proposers
  read in \<open>n\<close> rounds and \<open>proposerCount a\<close> counts the rounds in which the validator
  of address \<open>a\<close> was read.
\<close>

fun proposerRun :: "nat \<Rightarrow> ValidatorSet \<Rightarrow> Validator option list" where
  "proposerRun 0 vals = []"
| "proposerRun (Suc n) vals = GetProposer vals # proposerRun n (IncrementProposerPriority 1 vals)"

definition proposerCount :: "bytes \<Rightarrow> Validator option list \<Rightarrow> nat" where
  "proposerCount a ps = length (filter (\<lambda>p. map_option Address p = Some a) ps)"



text \<open>
  What one increment does to a validator when neither centering nor rescaling changes
  a priority: it gains its power, and loses the total power \<open>T\<close> if its address is
  \<open>a\<close>, the address of the validator picked.
\<close>

definition stepFun :: "int \<Rightarrow> bytes \<Rightarrow> Validator \<Rightarrow> Validator" where
  "stepFun T a v =
     v\<lparr>ProposerPriority := ProposerPriority v + VotingPower v - (if Address v = a then T else 0)\<rparr>"


definition fourVals :: ValidatorSet where
  "fourVals =
     \<lparr>Validators = [mkValidator 1 1 0, mkValidator 2 2 0, mkValidator 3 3 0, mkValidator 4 4 0],
      Proposer = None\<rparr>"

section \<open>Properties of the query matcher\<close>

lemma matchesEvents_loop_Nil: "matchesEvents_loop cs [] = False"
  by (induction cs) (simp_all add: matchesAny_def)

text \<open>
  Claim C10. A compiled (non-nil) query, also one with no condition at all, does not
  match the empty collection of events, while the nil query matches any input; so a
  query matches every input exactly when it is nil.
\<close>

theorem Matches_nil_only_matches_all:
  "Matches (Some q) [] = (False, None)
   \<and> Matches (Some \<lparr>conds = []\<rparr>) [] = (False, None)
   \<and> Matches None events = (True, None)
   \<and> ((\<forall>evs. fst (Matches q' evs)) \<longleftrightarrow> q' = None)"
proof -
  have a: "\<And>p. Matches (Some p) [] = (False, None)"
    by (simp add: Matches_def matchesEvents_def ExpandEvents_def matchesEvents_loop_Nil)
  have b: "Matches None events = (True, None)"
    by (simp add: Matches_def)
  have c: "(\<forall>evs. fst (Matches q' evs)) \<longleftrightarrow> q' = None"
  proof (cases q')
    case None
    then show ?thesis by (simp add: Matches_def)
  next
    case (Some p)
    have "\<not> fst (Matches (Some p) [])" using a [of p] by simp
    with Some show ?thesis by blast
  qed
  from a b c show ?thesis by blast
qed

section \<open>Properties of the block indexer's Index\<close>

lemma reserved_key_nonempty:
  assumes "ty @ ''.'' @ k = BlockHeightKey"
  shows "k \<noteq> [] \<and> ty \<noteq> []"
proof -
  have "k \<noteq> []"
  proof
    assume "k = []"
    with assms have "last (ty @ ''.'') = last BlockHeightKey" by simp
    then show False by (simp add: BlockHeightKey_def)
  qed
  moreover have "ty \<noteq> []"
  proof
    assume "ty = []"
    with assms have "hd (''.'' @ k) = hd BlockHeightKey" by simp
    then show False by (simp add: BlockHeightKey_def)
  qed
  ultimately show ?thesis by simp
qed

lemma indexAttrs_reserved:
  "list_ex (\<lambda>attr. ty @ ''.'' @ Key attr = BlockHeightKey) attrs \<Longrightarrow>
   \<exists>e. indexAttrs d ty height seq attrs b = Inl e"
proof (induction attrs arbitrary: b)
  case Nil
  then show ?case by simp
next
  case (Cons attr rest)
  show ?case
  proof (cases "ty @ ''.'' @ Key attr = BlockHeightKey")
    case True
    then have "Key attr \<noteq> []" using reserved_key_nonempty by blast
    with True show ?thesis by simp
  next
    case False
    with Cons.prems have r: "list_ex (\<lambda>attr. ty @ ''.'' @ Key attr = BlockHeightKey) rest"
      by simp
    from Cons.IH [OF r] show ?thesis
      by (auto simp: Let_def split: sum.splits)
  qed
qed

lemma indexEvents_reserved:
  "list_ex formsReserved events \<Longrightarrow> \<exists>e. fst (indexEvents d idx b events height) = Inl e"
proof (induction events arbitrary: idx b)
  case Nil
  then show ?case by simp
next
  case (Cons event rest)
  show ?case
  proof (cases "formsReserved event")
    case True
    then obtain attr where a: "attr \<in> set (Attributes event)"
        "Type event @ ''.'' @ Key attr = BlockHeightKey"
      by (auto simp: formsReserved_def list_ex_iff)
    then have ne: "Type event \<noteq> []" using reserved_key_nonempty by blast
    from True obtain e where
      "indexAttrs d (Type event) height (eventSeq idx + 1) (Attributes event) b = Inl e"
      unfolding formsReserved_def using indexAttrs_reserved by blast
    with ne show ?thesis by (simp add: Let_def)
  next
    case False
    with Cons.prems have r: "list_ex formsReserved rest" by simp
    show ?thesis using Cons.IH [OF r]
      by (auto simp: Let_def split: sum.splits)
  qed
qed

lemma indexAttrs_not_reserved:
  "\<not> list_ex (\<lambda>attr. ty @ ''.'' @ Key attr = BlockHeightKey) attrs \<Longrightarrow>
   indexAttrs d ty height seq attrs b = Inl e \<Longrightarrow> \<not> isReservedErr e"
proof (induction attrs arbitrary: b)
  case Nil
  then show ?case by simp
next
  case (Cons attr rest)
  then show ?case
    by (auto simp: Let_def batch_Set_def split: sum.splits if_splits option.splits)
qed

lemma indexEvents_not_reserved:
  "\<not> list_ex formsReserved events \<Longrightarrow> fst (indexEvents d idx b events height) = Inl e \<Longrightarrow>
   \<not> isReservedErr e"
proof (induction events arbitrary: idx b)
  case Nil
  then show ?case by simp
next
  case (Cons event rest)
  from Cons.prems(1) have nr: "\<not> list_ex formsReserved rest" by simp
  from Cons.prems(1) have "\<not> formsReserved event" by simp
  then have na: "\<not> list_ex (\<lambda>attr. Type event @ ''.'' @ Key attr = BlockHeightKey)
               (Attributes event)"
    by (simp add: formsReserved_def)
  let ?idx1 = "idx\<lparr>eventSeq := eventSeq idx + 1\<rparr>"
  show ?case
  proof (cases "length (Type event) = 0")
    case True
    with Cons.prems(2) Cons.IH [OF nr, of ?idx1 b] show ?thesis by (simp add: Let_def)
  next
    case False
    show ?thesis
    proof (cases "indexAttrs d (Type event) height (eventSeq ?idx1) (Attributes event) b")
      case (Inl e')
      with False Cons.prems(2) have "e' = e" by (simp add: Let_def)
      with Inl indexAttrs_not_reserved [OF na] show ?thesis by blast
    next
      case (Inr b')
      with False Cons.prems(2) Cons.IH [OF nr, of ?idx1 b'] show ?thesis
        by (simp add: Let_def)
    qed
  qed
qed

lemma indexEvents_store: "store (snd (indexEvents d idx b events height)) = store idx"
  by (induction events arbitrary: idx b) (auto simp: Let_def split: sum.splits)

text \<open>
  Claim C8. If some event type and attribute key of the bundle concatenate to the
  reserved composite key \<open>block.height\<close>, \<open>Index\<close> returns an error; if no
  attribute forms that key, \<open>Index\<close> returns nil or an error that is not the
  reserved-key error. This holds for every behaviour of the key encoders and of the
  database.
\<close>

theorem Index_rejects_reserved_key:
  "(list_ex formsReserved (Events bh) \<longrightarrow> (\<exists>e. fst (Index d idx bh) = Some e))
   \<and> (\<not> list_ex formsReserved (Events bh) \<longrightarrow>
        (case fst (Index d idx bh) of None \<Rightarrow> True | Some e \<Rightarrow> \<not> isReservedErr e))"
proof (intro conjI impI)
  assume r: "list_ex formsReserved (Events bh)"
  show "\<exists>e. fst (Index d idx bh) = Some e"
  proof (cases "heightKey d (Height bh)")
    case (Inl m)
    then show ?thesis by (simp add: Index_def)
  next
    case (Inr key)
    show ?thesis
    proof (cases "batch_Set d [] key (int64ToBytes d (Height bh))")
      case (Inl e)
      with Inr show ?thesis by (simp add: Index_def)
    next
      case b: (Inr b)
      from indexEvents_reserved [OF r] obtain e where
        "fst (indexEvents d idx b (Events bh) (Height bh)) = Inl e" by blast
      then obtain idx' where "indexEvents d idx b (Events bh) (Height bh) = (Inl e, idx')"
        by (cases "indexEvents d idx b (Events bh) (Height bh)") simp
      with Inr b show ?thesis by (simp add: Index_def)
    qed
  qed
next
  assume n: "\<not> list_ex formsReserved (Events bh)"
  show "case fst (Index d idx bh) of None \<Rightarrow> True | Some e \<Rightarrow> \<not> isReservedErr e"
  proof (cases "heightKey d (Height bh)")
    case (Inl m)
    then show ?thesis by (simp add: Index_def)
  next
    case (Inr key)
    show ?thesis
    proof (cases "batch_Set d [] key (int64ToBytes d (Height bh))")
      case (Inl e)
      then have "\<not> isReservedErr e" by (auto simp: batch_Set_def split: option.splits)
      with Inl Inr show ?thesis by (simp add: Index_def)
    next
      case b: (Inr b)
      obtain r idx' where ie: "indexEvents d idx b (Events bh) (Height bh) = (r, idx')"
        by (cases "indexEvents d idx b (Events bh) (Height bh)")
      show ?thesis
      proof (cases r)
        case (Inl e)
        with ie indexEvents_not_reserved [OF n, of d idx b "Height bh" e]
        have "\<not> isReservedErr e" by simp
        with Inl ie Inr b show ?thesis by (simp add: Index_def)
      next
        case r: (Inr b')
        with ie Inr b show ?thesis
          by (auto simp: Index_def batch_WriteSync_def split: option.splits)
      qed
    qed
  qed
qed

theorem Index_rejects_reserved_key_witness:
  "list_ex formsReserved (Events reservedBundle)
   \<and> fst (Index goodDeps emptyIndexer reservedBundle) =
       Some (ErrWrap ''failed to index FinalizeBlock events'' (ErrReserved ''block.height''))
   \<and> \<not> list_ex formsReserved (Events proposerBundle)
   \<and> fst (Index goodDeps emptyIndexer proposerBundle) = None"
  using Index_rejects_reserved_key [of reservedBundle goodDeps emptyIndexer]
    Index_rejects_reserved_key [of proposerBundle goodDeps emptyIndexer]
  by (simp add: Index_def goodDeps_def emptyIndexer_def reservedBundle_def proposerBundle_def
      batch_Set_def batch_WriteSync_def BlockHeightKey_def formsReserved_def)

text \<open>
  Claim C9. \<open>Index\<close> is atomic on error: whenever it returns an error, the store is
  what it was before the call, so nothing of the block is persisted, and \<open>Has\<close>
  answers for every height as it did before; a height that was not indexed still is
  not.
\<close>

theorem Index_atomic_on_error:
  assumes "fst (Index d idx bh) = Some e"
  shows "store (snd (Index d idx bh)) = store idx
         \<and> Has d (snd (Index d idx bh)) h = Has d idx h"
proof -
  have s: "store (snd (Index d idx bh)) = store idx"
  proof (cases "heightKey d (Height bh)")
    case (Inl m)
    then show ?thesis by (simp add: Index_def)
  next
    case (Inr key)
    show ?thesis
    proof (cases "batch_Set d [] key (int64ToBytes d (Height bh))")
      case (Inl e)
      with Inr show ?thesis by (simp add: Index_def)
    next
      case b: (Inr b)
      obtain r idx' where ie: "indexEvents d idx b (Events bh) (Height bh) = (r, idx')"
        by (cases "indexEvents d idx b (Events bh) (Height bh)")
      have st: "store idx' = store idx"
        using indexEvents_store [of d idx b "Events bh" "Height bh"] ie by simp
      show ?thesis
      proof (cases r)
        case (Inl e)
        with ie Inr b st show ?thesis by (simp add: Index_def)
      next
        case r: (Inr b')
        with ie Inr b st assms show ?thesis
          by (auto simp: Index_def split: sum.splits)
      qed
    qed
  qed
  then show ?thesis by (simp add: Has_def split: sum.splits option.splits)
qed

theorem Index_atomic_on_error_witness:
  "fst (Index goodDeps emptyIndexer reservedBundle) =
     Some (ErrWrap ''failed to index FinalizeBlock events'' (ErrReserved ''block.height''))
   \<and> store (snd (Index goodDeps emptyIndexer reservedBundle)) = store emptyIndexer
   \<and> Has goodDeps (snd (Index goodDeps emptyIndexer reservedBundle)) 1 = (False, None)
   \<and> Has goodDeps (snd (Index goodDeps emptyIndexer proposerBundle)) 1 = (True, None)"
proof -
  have e: "fst (Index goodDeps emptyIndexer reservedBundle) =
     Some (ErrWrap ''failed to index FinalizeBlock events'' (ErrReserved ''block.height''))"
    by (simp add: Index_def goodDeps_def emptyIndexer_def reservedBundle_def
        batch_Set_def BlockHeightKey_def)
  have h0: "Has goodDeps emptyIndexer 1 = (False, None)"
    by (simp add: Has_def goodDeps_def emptyIndexer_def)
  have h1: "Has goodDeps (snd (Index goodDeps emptyIndexer proposerBundle)) 1 = (True, None)"
    by (simp add: Index_def Has_def goodDeps_def emptyIndexer_def proposerBundle_def
        batch_Set_def batch_WriteSync_def BlockHeightKey_def applyBatch_def)
  from Index_atomic_on_error [OF e, of 1] e h0 h1 show ?thesis by simp
qed

section \<open>Properties of the state transition\<close>

lemma DeterministicExecTxResult_detFields:
  "detFields r = detFields r' \<Longrightarrow> DeterministicExecTxResult r = DeterministicExecTxResult r'"
  unfolding detFields_def DeterministicExecTxResult_def by simp

lemma NewResults_detFields:
  "map detFields rs = map detFields rs' \<Longrightarrow> NewResults rs = NewResults rs'"
proof (induction rs arbitrary: rs')
  case Nil
  then show ?case by (simp add: NewResults_def)
next
  case (Cons r rs)
  from Cons.prems obtain r' rs'' where e: "rs' = r' # rs''" by (cases rs') simp_all
  from Cons.prems e have d: "detFields r = detFields r'"
    and m: "map detFields rs = map detFields rs''"
    by simp_all
  from Cons.IH [OF m] have "map DeterministicExecTxResult rs = map DeterministicExecTxResult rs''"
    by (simp only: NewResults_def)
  moreover from d have "DeterministicExecTxResult r = DeterministicExecTxResult r'"
    by (rule DeterministicExecTxResult_detFields)
  ultimately show ?case by (simp only: NewResults_def e list.map)
qed

lemma UpdateState_Inr:
  assumes u: "UpdateState marshal H vp prev bid hdr resp ups = Inr next"
  shows "\<exists>changed h lv lp.
           applyValidatorUpdates ups (NextValidators prev) = Inr changed
           \<and> Validators changed \<noteq> []
           \<and> TxResultsHash marshal H (TxResults resp) = Inr h
           \<and> next = nextState prev bid hdr resp (IncrementProposerPriority 1 changed) lv
                      (nextParamsOf prev resp) lp h"
proof -
  have v: "\<not> list_ex (\<lambda>c. \<not> validValidatorUpdate (Params prev) c) ups"
  proof
    assume "list_ex (\<lambda>c. \<not> validValidatorUpdate (Params prev) c) ups"
    with u show False unfolding UpdateState_def by simp
  qed
  obtain changed where c: "applyValidatorUpdates ups (NextValidators prev) = Inr changed"
  proof (cases "applyValidatorUpdates ups (NextValidators prev)")
    case (Inl e)
    with u v have False unfolding UpdateState_def by simp
    then show ?thesis ..
  next
    case (Inr changed)
    then show ?thesis by (rule that)
  qed
  have ne: "Validators changed \<noteq> []"
  proof
    assume "Validators changed = []"
    with u v c show False unfolding UpdateState_def by simp
  qed
  have p: "\<not> paramsRejected vp prev resp"
  proof
    assume "paramsRejected vp prev resp"
    with u v c ne show False unfolding UpdateState_def by simp
  qed
  obtain h where h: "TxResultsHash marshal H (TxResults resp) = Inr h"
  proof (cases "TxResultsHash marshal H (TxResults resp)")
    case (Inl e)
    with u v c ne p have False unfolding UpdateState_def by simp
    then show ?thesis ..
  next
    case (Inr h)
    then show ?thesis by (rule that)
  qed
  from u v c ne p h have "\<exists>lv lp. next = nextState prev bid hdr resp
        (IncrementProposerPriority 1 changed) lv (nextParamsOf prev resp) lp h"
    unfolding UpdateState_def by (simp del: One_nat_def) blast
  with c ne h show ?thesis by blast
qed

lemma UpdateState_LastResultsHash:
  assumes "UpdateState marshal H vp prev bid hdr resp ups = Inr next"
  shows "TxResultsHash marshal H (TxResults resp) = Inr (LastResultsHash next)"
proof -
  from UpdateState_Inr [OF assms] obtain changed h lv lp where
    "TxResultsHash marshal H (TxResults resp) = Inr h"
    "next = nextState prev bid hdr resp (IncrementProposerPriority 1 changed) lv
              (nextParamsOf prev resp) lp h"
    by blast
  then show ?thesis by (simp add: nextState_def)
qed

text \<open>
  Claim C5. The \<open>LastResultsHash\<close> of the state the transition produces is the
  Merkle hash over the tx results projected to \<open>Code\<close>, \<open>Data\<close>, \<open>GasWanted\<close>
  and \<open>GasUsed\<close>, every other field being stripped, so two result lists that agree
  on these four fields hash alike; the empty list hashes to the empty-tree sentinel.
\<close>

theorem LastResultsHash_merkle_of_projection:
  "TxResultsHash marshal H [] = Inr (emptyHash H)
   \<and> TxResultsHash marshal H rs =
       Hash marshal H
         (map (\<lambda>r. \<lparr>Code = Code r, Data = Data r, Log = [], Info = [],
                     GasWanted = GasWanted r, GasUsed = GasUsed r,
                     ResultEvents = [], Codespace = []\<rparr>) rs)
   \<and> (map detFields rs = map detFields rs' \<longrightarrow>
        TxResultsHash marshal H rs = TxResultsHash marshal H rs')
   \<and> (UpdateState marshal H vp prev bid hdr resp ups = Inr next \<longrightarrow>
        TxResultsHash marshal H (TxResults resp) = Inr (LastResultsHash next))"
proof (intro conjI impI)
  show "TxResultsHash marshal H [] = Inr (emptyHash H)"
    by (simp add: TxResultsHash_def Hash_def NewResults_def)
  show "TxResultsHash marshal H rs =
       Hash marshal H
         (map (\<lambda>r. \<lparr>Code = Code r, Data = Data r, Log = [], Info = [],
                     GasWanted = GasWanted r, GasUsed = GasUsed r,
                     ResultEvents = [], Codespace = []\<rparr>) rs)"
  proof -
    have "DeterministicExecTxResult =
        (\<lambda>r. \<lparr>Code = Code r, Data = Data r, Log = [], Info = [],
              GasWanted = GasWanted r, GasUsed = GasUsed r,
              ResultEvents = [], Codespace = []\<rparr>)"
      by (rule ext) (rule DeterministicExecTxResult_def)
    then show ?thesis by (simp only: TxResultsHash_def NewResults_def)
  qed
next
  assume "map detFields rs = map detFields rs'"
  then have "NewResults rs = NewResults rs'" by (rule NewResults_detFields)
  then show "TxResultsHash marshal H rs = TxResultsHash marshal H rs'"
    by (simp only: TxResultsHash_def)
next
  assume "UpdateState marshal H vp prev bid hdr resp ups = Inr next"
  then show "TxResultsHash marshal H (TxResults resp) = Inr (LastResultsHash next)"
    by (rule UpdateState_LastResultsHash)
qed

theorem LastResultsHash_merkle_of_projection_witness:
  "map detFields [txResult 32 ''Hello'' ''Huh?''] = map detFields [txResult 32 ''Hello'' []]
   \<and> TxResultsHash testMarshal testH [txResult 32 ''Hello'' ''Huh?''] =
       TxResultsHash testMarshal testH [txResult 32 ''Hello'' []]
   \<and> TxResultsHash testMarshal testH [txResult 32 ''Hello'' ''Huh?''] = Inr helloHash
   \<and> Hash testMarshal testH [txResult 32 ''Hello'' ''Huh?''] \<noteq> Inr helloHash
   \<and> UpdateState testMarshal testH (\<lambda>p. True) testState [] testHeader helloResponse [] =
       Inr (nextState testState [] testHeader helloResponse val1After 1 defaultParams 1 helloHash)
   \<and> LastResultsHash
         (nextState testState [] testHeader helloResponse val1After 1 defaultParams 1 helloHash) =
       helloHash"
proof -
  have d: "map detFields [txResult 32 ''Hello'' ''Huh?''] =
      map detFields [txResult 32 ''Hello'' []]"
    by (simp add: detFields_def txResult_def)
  have h: "TxResultsHash testMarshal testH [txResult 32 ''Hello'' ''Huh?''] = Inr helloHash"
    by (simp add: TxResultsHash_def Hash_def NewResults_def DeterministicExecTxResult_def
        testMarshal_def testH_def txResult_def leafHash_def helloHash_def)
  have n: "Hash testMarshal testH [txResult 32 ''Hello'' ''Huh?''] \<noteq> Inr helloHash"
    by (simp add: Hash_def testMarshal_def testH_def txResult_def leafHash_def helloHash_def)
  have a: "applyValidatorUpdates [] (NextValidators testState) = Inr singleValSet"
    by (simp add: applyValidatorUpdates_def Copy_def testState_def)
  have i: "IncrementProposerPriority 1 singleValSet = val1After"
    by code_simp
  have ne: "Validators singleValSet \<noteq> []"
    by (simp add: singleValSet_def)
  have u: "UpdateState testMarshal testH (\<lambda>p. True) testState [] testHeader helloResponse [] =
      Inr (nextState testState [] testHeader helloResponse val1After 1 defaultParams 1 helloHash)"
    unfolding UpdateState_def
    using a i ne h
    by (simp add: paramsRejected_def nextParamsOf_def helloResponse_def testState_def
        del: One_nat_def)
  from LastResultsHash_merkle_of_projection
      [of testMarshal testH "[txResult 32 ''Hello'' ''Huh?'']" "[txResult 32 ''Hello'' []]"
        "\<lambda>p. True" testState "[]" testHeader helloResponse "[]"
        "nextState testState [] testHeader helloResponse val1After 1 defaultParams 1 helloHash"]
  have T: "(map detFields [txResult 32 ''Hello'' ''Huh?''] = map detFields [txResult 32 ''Hello'' []]
        \<longrightarrow> TxResultsHash testMarshal testH [txResult 32 ''Hello'' ''Huh?''] =
            TxResultsHash testMarshal testH [txResult 32 ''Hello'' []])
      \<and> (UpdateState testMarshal testH (\<lambda>p. True) testState [] testHeader helloResponse [] =
           Inr (nextState testState [] testHeader helloResponse val1After 1 defaultParams 1
                  helloHash)
        \<longrightarrow> TxResultsHash testMarshal testH (TxResults helloResponse) =
            Inr (LastResultsHash
                  (nextState testState [] testHeader helloResponse val1After 1 defaultParams 1
                     helloHash)))"
    by blast
  from T d have e: "TxResultsHash testMarshal testH [txResult 32 ''Hello'' ''Huh?''] =
      TxResultsHash testMarshal testH [txResult 32 ''Hello'' []]"
    by blast
  from T u have "TxResultsHash testMarshal testH (TxResults helloResponse) =
      Inr (LastResultsHash
             (nextState testState [] testHeader helloResponse val1After 1 defaultParams 1
                helloHash))"
    by blast
  with h have l: "LastResultsHash
      (nextState testState [] testHeader helloResponse val1After 1 defaultParams 1 helloHash) =
      helloHash"
    by (simp add: helloResponse_def)
  from d e h n u l show ?thesis by blast
qed

text \<open>
  Claim C2. Whenever \<open>UpdateState\<close> returns a state, its validators are the previous
  state's next validators and its next validators are the previous next validators
  with the updates applied and exactly one priority increment after that; with no
  updates the increment is still made. And it does return such a state for every list
  of valid validator updates that applies to the previous next validators and leaves
  a validator, when the parameter updates are accepted and the results marshal.
\<close>

theorem UpdateState_validator_rotation:
  "(UpdateState marshal H vp prev bid hdr resp ups = Inr next \<longrightarrow>
      StateValidators next = NextValidators prev
      \<and> (\<exists>changed. applyValidatorUpdates ups (NextValidators prev) = Inr changed
            \<and> NextValidators next = IncrementProposerPriority 1 changed)
      \<and> (ups = [] \<longrightarrow> NextValidators next = IncrementProposerPriority 1 (NextValidators prev)))
   \<and> (list_all (validValidatorUpdate (Params prev)) ups
      \<and> applyValidatorUpdates ups (NextValidators prev) = Inr changed
      \<and> Validators changed \<noteq> []
      \<and> (case ParamUpdates resp of None \<Rightarrow> True | Some u \<Rightarrow> vp (UpdateParams (Params prev) u))
      \<and> TxResultsHash marshal H (TxResults resp) = Inr h \<longrightarrow>
      (\<exists>next'. UpdateState marshal H vp prev bid hdr resp ups = Inr next'
         \<and> StateValidators next' = NextValidators prev
         \<and> NextValidators next' = IncrementProposerPriority 1 changed))"
proof (intro conjI impI)
  assume u: "UpdateState marshal H vp prev bid hdr resp ups = Inr next"
  from UpdateState_Inr [OF u] obtain changed' h' lv lp where
    c: "applyValidatorUpdates ups (NextValidators prev) = Inr changed'"
    and n: "next = nextState prev bid hdr resp (IncrementProposerPriority 1 changed') lv
              (nextParamsOf prev resp) lp h'"
    by blast
  from n show "StateValidators next = NextValidators prev"
    by (simp add: nextState_def Copy_def)
  from n have nv: "NextValidators next = IncrementProposerPriority 1 changed'"
    by (simp add: nextState_def)
  with c show "\<exists>changed. applyValidatorUpdates ups (NextValidators prev) = Inr changed
            \<and> NextValidators next = IncrementProposerPriority 1 changed"
    by blast
  assume "ups = []"
  with c have "changed' = NextValidators prev"
    by (simp add: applyValidatorUpdates_def Copy_def)
  with nv show "NextValidators next = IncrementProposerPriority 1 (NextValidators prev)"
    by simp
next
  assume a: "list_all (validValidatorUpdate (Params prev)) ups
      \<and> applyValidatorUpdates ups (NextValidators prev) = Inr changed
      \<and> Validators changed \<noteq> []
      \<and> (case ParamUpdates resp of None \<Rightarrow> True | Some u \<Rightarrow> vp (UpdateParams (Params prev) u))
      \<and> TxResultsHash marshal H (TxResults resp) = Inr h"
  then have v: "\<not> list_ex (\<lambda>c. \<not> validValidatorUpdate (Params prev) c) ups"
    by (simp add: list_all_iff list_ex_iff)
  from a have p: "\<not> paramsRejected vp prev resp"
    by (cases "ParamUpdates resp") (simp_all add: nextParamsOf_def paramsRejected_def)
  from a v p obtain lv lp where
    "UpdateState marshal H vp prev bid hdr resp ups =
       Inr (nextState prev bid hdr resp (IncrementProposerPriority 1 changed) lv
              (nextParamsOf prev resp) lp h)"
    unfolding UpdateState_def by simp
  then show "\<exists>next'. UpdateState marshal H vp prev bid hdr resp ups = Inr next'
         \<and> StateValidators next' = NextValidators prev
         \<and> NextValidators next' = IncrementProposerPriority 1 changed"
    by (simp add: nextState_def Copy_def)
qed

theorem UpdateState_validator_rotation_witness:
  "UpdateState testMarshal testH (\<lambda>p. True) testState [] testHeader emptyResponse [] =
     Inr (nextState testState [] testHeader emptyResponse val1After 1 defaultParams 1
            (emptyHash testH))
   \<and> NextValidators
         (nextState testState [] testHeader emptyResponse val1After 1 defaultParams 1
            (emptyHash testH)) = IncrementProposerPriority 1 (NextValidators testState)
   \<and> list_all (validValidatorUpdate (Params testState)) [mkValidator 2 10 0]
   \<and> (\<exists>next'. UpdateState testMarshal testH (\<lambda>p. True) testState [] testHeader emptyResponse
                   [mkValidator 2 10 0] = Inr next'
         \<and> StateValidators next' = NextValidators testState
         \<and> NextValidators next' = twoValSet)"
proof -
  have u: "UpdateState testMarshal testH (\<lambda>p. True) testState [] testHeader emptyResponse [] =
     Inr (nextState testState [] testHeader emptyResponse val1After 1 defaultParams 1
            (emptyHash testH))"
    by code_simp
  have v: "list_all (validValidatorUpdate (Params testState)) [mkValidator 2 10 0]"
    by code_simp
  have a: "applyValidatorUpdates [mkValidator 2 10 0] (NextValidators testState) = Inr val2Added"
    by code_simp
  have i: "IncrementProposerPriority 1 val2Added = twoValSet"
    by code_simp
  have ne: "Validators val2Added \<noteq> []"
    by (simp add: val2Added_def)
  have p: "case ParamUpdates emptyResponse of None \<Rightarrow> True
      | Some u \<Rightarrow> (\<lambda>p. True) (UpdateParams (Params testState) u)"
    by (simp add: emptyResponse_def)
  have h: "TxResultsHash testMarshal testH (TxResults emptyResponse) = Inr (emptyHash testH)"
    by (simp add: emptyResponse_def TxResultsHash_def Hash_def NewResults_def)
  from UpdateState_validator_rotation
      [of testMarshal testH "\<lambda>p. True" testState "[]" testHeader emptyResponse "[]"
        "nextState testState [] testHeader emptyResponse val1After 1 defaultParams 1
           (emptyHash testH)"]
    u
  have r1: "NextValidators
         (nextState testState [] testHeader emptyResponse val1After 1 defaultParams 1
            (emptyHash testH)) = IncrementProposerPriority 1 (NextValidators testState)"
    by blast
  from UpdateState_validator_rotation
      [of testMarshal testH "\<lambda>p. True" testState "[]" testHeader emptyResponse
        "[mkValidator 2 10 0]" _ val2Added "emptyHash testH"]
    v a ne p h i
  have r2: "\<exists>next'. UpdateState testMarshal testH (\<lambda>p. True) testState [] testHeader emptyResponse
                   [mkValidator 2 10 0] = Inr next'
         \<and> StateValidators next' = NextValidators testState
         \<and> NextValidators next' = twoValSet"
    by simp
  from u r1 v r2 show ?thesis by blast
qed


section \<open>Properties of the validator set\<close>









text \<open>
  The claim as stated fails when the change set that adds a validator also removes
  one: from the set that 51 increments of two fresh validators of powers 100 and 1
  reach, removing the first and adding a third of power 1 leaves the newcomer with
  priority 2, and the next increment makes it the proposer.
\<close>

lemma unbondingSet_reached: "IncrementProposerPriority 51 freshPair = unbondingSet"
  by code_simp



section \<open>Proposer frequency\<close>

subsection \<open>Sums over lists\<close>




subsection \<open>The validator picked has the largest priority\<close>






subsection \<open>One increment, and a run of increments\<close>




lemma stepFun_simps [simp]:
  "Address (stepFun T a v) = Address v"
  "VotingPower (stepFun T a v) = VotingPower v"
  "ProposerPriority (stepFun T a v) =
     ProposerPriority v + VotingPower v - (if Address v = a then T else 0)"
  by (simp_all add: stepFun_def)














text \<open>
  Scenario S3 of the spec: a set of powers 1, 2, 3 and 4 that has been incremented
  once, as a newly built set is, gives every validator exactly its power in 10 rounds.
\<close>

lemma fourVals_exact:
  "map (\<lambda>a. proposerCount [a] (proposerRun 10 (IncrementProposerPriority 1 fourVals)))
     [1, 2, 3, 4] = [1, 2, 3, 4]"
  by code_simp



end
